theory Spec2Isabelle
  imports Main "HOL-Library.Signed_Division"
begin

section \<open>The focus timer (src/js/timer.js)\<close>

text \<open>
  The module keeps its state in closure variables and reports through four callbacks.
  The model is a record of those variables, passed explicitly; the callbacks are a log
  \<open>emitted\<close> of the calls made, in the order the module makes them. Numbers are
  integers (\<open>int\<close>), a \<open>Date\<close> is its millisecond timestamp, and every reading of the
  clock (\<open>new Date()\<close>) is a parameter \<open>now\<close> of the operation that reads it.
\<close>

type_synonym date = int

datatype tstate = Idle | Running | Paused

record time_fmt =
  hours :: string
  minutes :: string
  seconds :: string
  formatted :: string

record payload =
  duration :: int
  startTime :: "date option"
  endTime :: date
  completed :: bool
  wasBreak :: bool

datatype event =
    TickEv time_fmt int
  | StateChangeEv tstate "bool option"
  | CompleteEv payload
  | WarningEv int

text \<open>
  \<open>intervalId\<close> is \<open>True\<close> when a repeating timer is registered (the handle is not
  \<open>null\<close>); \<open>sessionStartTime\<close> is \<open>None\<close> for \<open>null\<close>.
\<close>

record timer =
  state :: tstate
  totalSeconds :: int
  remainingSeconds :: int
  intervalId :: bool
  sessionStartTime :: "date option"
  isBreak :: bool
  triggeredWarnings :: "int set"
  emitted :: "event list"

definition init :: timer where
  "init = \<lparr> state = Idle, totalSeconds = 14400, remainingSeconds = 14400,
            intervalId = False, sessionStartTime = None, isBreak = False,
            triggeredWarnings = {}, emitted = [] \<rparr>"

definition WARNING_THRESHOLDS :: "int list" where
  "WARNING_THRESHOLDS = [300, 60]"

definition emit :: "event \<Rightarrow> timer \<Rightarrow> timer" where
  "emit e s = s\<lparr> emitted := emitted s @ [e] \<rparr>"

subsection \<open>Formatting\<close>

fun digits :: "nat \<Rightarrow> string" where
  "digits n = (if n < 10 then [''0123456789'' ! n]
               else digits (n div 10) @ [''0123456789'' ! (n mod 10)])"

declare digits.simps [simp del]

text \<open>\<open>String(n)\<close> on an integer.\<close>

definition toString :: "int \<Rightarrow> string" where
  "toString n = (if n < 0 then CHR ''-'' # digits (nat (- n)) else digits (nat n))"

definition padStart :: "nat \<Rightarrow> char \<Rightarrow> string \<Rightarrow> string" where
  "padStart n c s = replicate (n - length s) c @ s"

text \<open>
  \<open>Math.floor(a / b)\<close> is \<open>div\<close> on \<open>int\<close>; the remainder \<open>%\<close> of JavaScript takes
  the sign of the dividend, which is \<open>smod\<close>.
\<close>

definition formatTime :: "int \<Rightarrow> time_fmt" where
  "formatTime secs =
     (let h = secs div 3600;
          m = (secs smod 3600) div 60;
          s = secs smod 60
      in \<lparr> hours = padStart 2 CHR ''0'' (toString h),
           minutes = padStart 2 CHR ''0'' (toString m),
           seconds = padStart 2 CHR ''0'' (toString s),
           formatted = padStart 2 CHR ''0'' (toString h) @ '':''
                     @ padStart 2 CHR ''0'' (toString m) @ '':''
                     @ padStart 2 CHR ''0'' (toString s) \<rparr>)"

subsection \<open>Operations\<close>

definition complete :: "date \<Rightarrow> timer \<Rightarrow> timer" where
  "complete now s =
     (let wb = isBreak s;
          s1 = s\<lparr> intervalId := False, state := Idle, isBreak := False \<rparr>;
          s2 = emit (CompleteEv \<lparr> duration = totalSeconds s1,
                                  startTime = sessionStartTime s1,
                                  endTime = now,
                                  completed = True,
                                  wasBreak = wb \<rparr>) s1
      in emit (StateChangeEv (state s2) None) s2)"

text \<open>The body of the \<open>forEach\<close> in \<open>tick\<close>, for one threshold.\<close>

definition checkWarning :: "int \<Rightarrow> timer \<Rightarrow> timer" where
  "checkWarning threshold s =
     (if remainingSeconds s = threshold \<and> threshold \<notin> triggeredWarnings s
      then emit (WarningEv threshold)
             (s\<lparr> triggeredWarnings := insert threshold (triggeredWarnings s) \<rparr>)
      else s)"

definition tick :: "date \<Rightarrow> timer \<Rightarrow> timer" where
  "tick now s =
     (if remainingSeconds s \<le> 0 then complete now s
      else
        let s1 = s\<lparr> remainingSeconds := remainingSeconds s - 1 \<rparr>;
            s2 = fold checkWarning WARNING_THRESHOLDS s1
        in emit (TickEv (formatTime (remainingSeconds s2)) (remainingSeconds s2)) s2)"

definition start :: "date \<Rightarrow> timer \<Rightarrow> timer" where
  "start now s =
     (if state s = Running then s
      else
        let s1 = (if state s = Idle
                  then s\<lparr> sessionStartTime := Some now, triggeredWarnings := {} \<rparr>
                  else s);
            s2 = s1\<lparr> state := Running, intervalId := True \<rparr>
        in emit (StateChangeEv (state s2) (Some (isBreak s2))) s2)"

definition pause :: "timer \<Rightarrow> timer" where
  "pause s =
     (if state s \<noteq> Running then s
      else
        let s1 = s\<lparr> state := Paused, intervalId := False \<rparr>
        in emit (StateChangeEv (state s1) None) s1)"

definition toggle :: "date \<Rightarrow> timer \<Rightarrow> timer" where
  "toggle now s = (if state s = Running then pause s else start now s)"

definition reset :: "timer \<Rightarrow> timer" where
  "reset s =
     (let s1 = s\<lparr> intervalId := False, state := Idle,
                  remainingSeconds := totalSeconds s, isBreak := False,
                  triggeredWarnings := {} \<rparr>;
          s2 = emit (TickEv (formatTime (remainingSeconds s1)) (remainingSeconds s1)) s1
      in emit (StateChangeEv (state s2) None) s2)"

definition abort :: "date \<Rightarrow> timer \<Rightarrow> timer" where
  "abort now s =
     (let d = totalSeconds s - remainingSeconds s;
          st = sessionStartTime s;
          s1 = s\<lparr> intervalId := False, state := Idle,
                  remainingSeconds := totalSeconds s, isBreak := False,
                  triggeredWarnings := {} \<rparr>;
          s2 = (if d > 60
                then emit (CompleteEv \<lparr> duration = d, startTime = st, endTime = now,
                                        completed = False, wasBreak = False \<rparr>) s1
                else s1);
          s3 = emit (TickEv (formatTime (remainingSeconds s2)) (remainingSeconds s2)) s2
      in emit (StateChangeEv (state s3) None) s3)"

definition setTime :: "int \<Rightarrow> timer \<Rightarrow> timer" where
  "setTime secs s =
     (if state s = Running then s
      else
        let s1 = s\<lparr> totalSeconds := max 60 (min secs 43200) \<rparr>;
            s2 = s1\<lparr> remainingSeconds := totalSeconds s1 \<rparr>
        in emit (TickEv (formatTime (remainingSeconds s2)) (remainingSeconds s2)) s2)"

definition adjustTime :: "int \<Rightarrow> timer \<Rightarrow> timer" where
  "adjustTime delta s =
     (if state s = Running then s
      else setTime (totalSeconds s + delta) s)"

definition startBreak :: "date \<Rightarrow> int \<Rightarrow> timer \<Rightarrow> timer" where
  "startBreak now breakSeconds s =
     (let s1 = s\<lparr> totalSeconds := breakSeconds, remainingSeconds := breakSeconds,
                  isBreak := True, sessionStartTime := Some now,
                  triggeredWarnings := {} \<rparr>;
          s2 = emit (TickEv (formatTime (remainingSeconds s1)) (remainingSeconds s1)) s1
      in start now s2)"

subsection \<open>Runs of the module\<close>

text \<open>
  A call of the public interface, or one firing of the repeating timer (\<open>Tick\<close>).
  The interval fires only while it is registered.
\<close>

datatype cmd =
    Start date
  | Pause
  | Toggle date
  | Reset
  | Abort date
  | SetTime int
  | AdjustTime int
  | StartBreak date int
  | Tick date

fun exec :: "cmd \<Rightarrow> timer \<Rightarrow> timer" where
  "exec (Start now) s = start now s"
| "exec Pause s = pause s"
| "exec (Toggle now) s = toggle now s"
| "exec Reset s = reset s"
| "exec (Abort now) s = abort now s"
| "exec (SetTime n) s = setTime n s"
| "exec (AdjustTime d) s = adjustTime d s"
| "exec (StartBreak now b) s = startBreak now b s"
| "exec (Tick now) s = tick now s"

text \<open>
  \<open>enabled ok c s\<close>: the call \<open>c\<close> can happen in state \<open>s\<close>, where \<open>ok\<close> says which
  arguments the callers pass to \<open>startBreak\<close>.
\<close>

fun enabled :: "(int \<Rightarrow> bool) \<Rightarrow> cmd \<Rightarrow> timer \<Rightarrow> bool" where
  "enabled ok (Tick now) s = intervalId s"
| "enabled ok (StartBreak now b) s = ok b"
| "enabled ok c s = True"

inductive reachable :: "(int \<Rightarrow> bool) \<Rightarrow> timer \<Rightarrow> bool" for ok where
  reachable_init: "reachable ok init"
| reachable_step: "reachable ok s \<Longrightarrow> enabled ok c s \<Longrightarrow> reachable ok (exec c s)"

text \<open>The events of a log, by kind.\<close>

fun completions :: "event list \<Rightarrow> payload list" where
  "completions [] = []"
| "completions (CompleteEv p # es) = p # completions es"
| "completions (e # es) = completions es"

fun warnings :: "event list \<Rightarrow> int list" where
  "warnings [] = []"
| "warnings (WarningEv t # es) = t # warnings es"
| "warnings (e # es) = warnings es"


text \<open>
  A session, for the warnings, lasts until \<open>triggeredWarnings\<close> is cleared: by
  \<open>start\<close> from Idle, \<open>reset\<close>, \<open>abort\<close> or \<open>startBreak\<close>. \<open>keepsSession c s\<close> says
  that the call \<open>c\<close> in state \<open>s\<close> is none of these, and \<open>sessionRun cs s\<close> that the
  calls \<open>cs\<close>, made in turn from \<open>s\<close>, all stay in one session.
\<close>

fun keepsSession :: "cmd \<Rightarrow> timer \<Rightarrow> bool" where
  "keepsSession (Start now) s = (state s \<noteq> Idle)"
| "keepsSession (Toggle now) s = (state s \<noteq> Idle)"
| "keepsSession Reset s = False"
| "keepsSession (Abort now) s = False"
| "keepsSession (StartBreak now b) s = False"
| "keepsSession c s = True"

fun sessionRun :: "cmd list \<Rightarrow> timer \<Rightarrow> bool" where
  "sessionRun [] s = True"
| "sessionRun (c # cs) s = (keepsSession c s \<and> sessionRun cs (exec c s))"

text \<open>
  The warnings for threshold \<open>th\<close> emitted so far, plus one while \<open>th\<close> can still
  fire in this session.
\<close>

definition warningBudget :: "int \<Rightarrow> timer \<Rightarrow> nat" where
  "warningBudget th s =
     count_list (warnings (emitted s)) th + (if th \<in> triggeredWarnings s then 0 else 1)"

section \<open>Session history (src/unnamed/part_000)\<close>

text \<open>
  A stored session. \<open>startTime\<close> and \<open>endTime\<close> are stored as the text that
  \<open>toISOString()\<close> gives, which determines the timestamp and is determined by it;
  the model keeps the timestamp. The fields carry the prefix \<open>sess_\<close> to keep them
  apart from those of the completion payload.
\<close>

record session =
  sess_id :: int
  sess_startTime :: date
  sess_endTime :: date
  sess_duration :: int
  sess_completed :: bool
  sess_wasBreak :: bool

text \<open>
  The item under \<open>STORAGE_KEY\<close>: \<open>None\<close> when there is none or when reading it
  throws.
\<close>

type_synonym storage = "session list option"

definition getSessions :: "storage \<Rightarrow> session list" where
  "getSessions st = (case st of None \<Rightarrow> [] | Some ss \<Rightarrow> ss)"

text \<open>
  \<open>d.toISOString().split('T')[0]\<close> is the calendar date of \<open>d\<close> in UTC, as
  \<open>YYYY-MM-DD\<close>. The model names that date by the number of its day since the epoch;
  two timestamps have the same text exactly when they have the same day number, so
  \<open>startsWith(today)\<close> on a stored timestamp is equality of day numbers.
\<close>

definition isoDate :: "date \<Rightarrow> int" where
  "isoDate d = d div 86400000"

definition getTodayString :: "date \<Rightarrow> int" where
  "getTodayString now = isoDate now"

definition getTodaySessions :: "date \<Rightarrow> storage \<Rightarrow> session list" where
  "getTodaySessions now st =
     (let today = getTodayString now
      in filter (\<lambda>s. isoDate (sess_startTime s) = today \<and> \<not> sess_wasBreak s)
           (getSessions st))"

definition getTodayTotal :: "date \<Rightarrow> storage \<Rightarrow> int" where
  "getTodayTotal now st =
     foldl (\<lambda>sum s. sum + sess_duration s) 0
       (filter (\<lambda>s. sess_completed s) (getTodaySessions now st))"

definition formatDuration :: "int \<Rightarrow> string" where
  "formatDuration secs =
     (let h = secs div 3600;
          m = (secs smod 3600) div 60
      in if h > 0 then toString h @ ''h '' @ toString m @ ''m''
         else toString m @ ''m'')"

definition getCompletedCount :: "storage \<Rightarrow> nat" where
  "getCompletedCount st =
     length (filter (\<lambda>s. sess_completed s \<and> \<not> sess_wasBreak s) (getSessions st))"

text \<open>\<open>dates.add(d)\<close> on a \<open>Set\<close> kept as the list of its members.\<close>

definition addDate :: "int \<Rightarrow> int list \<Rightarrow> int list" where
  "addDate d ds = (if d \<in> set ds then ds else ds @ [d])"

text \<open>The \<open>while (true)\<close> loop of \<open>getStreak\<close>.\<close>

function streakLoop :: "int list \<Rightarrow> date \<Rightarrow> nat \<Rightarrow> nat" where
  "streakLoop dates checkDate streak =
     (if isoDate checkDate \<in> set dates
      then streakLoop dates (checkDate - 86400000) (streak + 1)
      else streak)"
  by pat_completeness auto
termination
proof (relation "measure (\<lambda>(dates, checkDate, streak).
                   card {d \<in> set dates. d \<le> isoDate checkDate})")
  show "wf (measure (\<lambda>(dates, checkDate, streak).
                   card {d \<in> set dates. d \<le> isoDate checkDate}))"
    by simp
next
  fix dates :: "int list" and checkDate :: date and streak :: nat
  assume mem: "isoDate checkDate \<in> set dates"
  have prev: "isoDate (checkDate - 86400000) = isoDate checkDate - 1"
    by (simp add: isoDate_def)
  have "{d \<in> set dates. d \<le> isoDate checkDate - 1}
          \<subset> {d \<in> set dates. d \<le> isoDate checkDate}"
    using mem by auto
  then have "card {d \<in> set dates. d \<le> isoDate checkDate - 1}
               < card {d \<in> set dates. d \<le> isoDate checkDate}"
    by (intro psubset_card_mono) simp_all
  then show "((dates, checkDate - 86400000, streak + 1), (dates, checkDate, streak))
               \<in> measure (\<lambda>(dates, checkDate, streak).
                   card {d \<in> set dates. d \<le> isoDate checkDate})"
    by (simp add: prev)
qed

declare streakLoop.simps [simp del]

text \<open>
  \<open>sortedDates\<close> is computed by the source and never read; it is left out. The loop
  starts with \<open>checkDate\<close> at \<open>now\<close>, or a day earlier.
\<close>

definition getStreak :: "date \<Rightarrow> storage \<Rightarrow> nat" where
  "getStreak now st =
     (let sessions = filter (\<lambda>s. sess_completed s \<and> \<not> sess_wasBreak s) (getSessions st)
      in if length sessions = 0 then 0
         else
           let dates = fold (\<lambda>s ds. addDate (isoDate (sess_startTime s)) ds) sessions [];
               today = getTodayString now;
               yesterday = isoDate (now - 86400000)
           in if today \<notin> set dates \<and> yesterday \<notin> set dates then 0
              else
                let checkDate = (if today \<notin> set dates then now - 86400000 else now)
                in streakLoop dates checkDate 0)"

record stats =
  todayTotal :: int
  todayFormatted :: string
  completedCount :: nat
  abortedCount :: nat
  streak :: nat
  totalTime :: int
  totalTimeFormatted :: string

definition getStats :: "date \<Rightarrow> storage \<Rightarrow> stats" where
  "getStats now st =
     (let sessions = getSessions st;
          focusSessions = filter (\<lambda>s. \<not> sess_wasBreak s) sessions
      in \<lparr> todayTotal = getTodayTotal now st,
           todayFormatted = formatDuration (getTodayTotal now st),
           completedCount = length (filter (\<lambda>s. sess_completed s) focusSessions),
           abortedCount = length (filter (\<lambda>s. \<not> sess_completed s) focusSessions),
           streak = getStreak now st,
           totalTime = foldl (\<lambda>sum s. sum + sess_duration s) 0 focusSessions,
           totalTimeFormatted =
             formatDuration (foldl (\<lambda>sum s. sum + sess_duration s) 0 focusSessions) \<rparr>)"

text \<open>The days on which a completed session that is not a break started.\<close>

definition completedDays :: "storage \<Rightarrow> int set" where
  "completedDays st =
     set (map (\<lambda>x. isoDate (sess_startTime x))
            (filter (\<lambda>x. sess_completed x \<and> \<not> sess_wasBreak x) (getSessions st)))"

subsection \<open>Today's total as the claim words it\<close>

text \<open>
  For comparison with \<open>getTodayTotal\<close> only; nothing of the code reads a time zone.
  \<open>localDate off d\<close> is the calendar day of \<open>d\<close> on a clock whose
  \<open>getTimezoneOffset()\<close> is \<open>off\<close> minutes (UTC minus local time: 480 for UTC-8, 0
  for UTC), numbered like \<open>isoDate\<close>. \<open>claimedTodayTotal\<close> is the sum the claim
  describes: the durations of the stored sessions whose local start date is today's
  local date and whose \<open>wasBreak\<close> flag is false, whatever their \<open>completed\<close> flag.
\<close>

definition localDate :: "int \<Rightarrow> date \<Rightarrow> int" where
  "localDate off d = (d - off * 60000) div 86400000"

definition claimedTodayTotal :: "int \<Rightarrow> date \<Rightarrow> storage \<Rightarrow> int" where
  "claimedTodayTotal off now st =
     sum_list (map sess_duration
       (filter (\<lambda>x. localDate off (sess_startTime x) = localDate off now \<and>
                     \<not> sess_wasBreak x)
          (getSessions st)))"

section \<open>Properties of the timer\<close>

subsection \<open>How each operation changes the state\<close>

lemma completions_append [simp]:
  "completions (xs @ ys) = completions xs @ completions ys"
  by (induction xs rule: completions.induct) simp_all

lemma warnings_append [simp]:
  "warnings (xs @ ys) = warnings xs @ warnings ys"
  by (induction xs rule: warnings.induct) simp_all

lemma emit_fields [simp]:
  "state (emit e s) = state s"
  "totalSeconds (emit e s) = totalSeconds s"
  "remainingSeconds (emit e s) = remainingSeconds s"
  "intervalId (emit e s) = intervalId s"
  "sessionStartTime (emit e s) = sessionStartTime s"
  "isBreak (emit e s) = isBreak s"
  "triggeredWarnings (emit e s) = triggeredWarnings s"
  "emitted (emit e s) = emitted s @ [e]"
  by (simp_all add: emit_def)

lemma checkWarning_fields [simp]:
  "state (checkWarning t s) = state s"
  "totalSeconds (checkWarning t s) = totalSeconds s"
  "remainingSeconds (checkWarning t s) = remainingSeconds s"
  "intervalId (checkWarning t s) = intervalId s"
  "sessionStartTime (checkWarning t s) = sessionStartTime s"
  "isBreak (checkWarning t s) = isBreak s"
  by (simp_all add: checkWarning_def)

lemma checkWarning_completions [simp]:
  "completions (emitted (checkWarning t s)) = completions (emitted s)"
  by (simp add: checkWarning_def)

lemma tick_pos_fields:
  assumes "0 < remainingSeconds s"
  shows "state (tick now s) = state s"
    and "totalSeconds (tick now s) = totalSeconds s"
    and "remainingSeconds (tick now s) = remainingSeconds s - 1"
    and "intervalId (tick now s) = intervalId s"
    and "sessionStartTime (tick now s) = sessionStartTime s"
    and "isBreak (tick now s) = isBreak s"
    and "completions (emitted (tick now s)) = completions (emitted s)"
  using assms by (simp_all add: tick_def Let_def WARNING_THRESHOLDS_def)

lemma tick_zero:
  assumes "remainingSeconds s \<le> 0"
  shows "tick now s = complete now s"
  using assms by (simp add: tick_def)

lemma complete_fields:
  "state (complete now s) = Idle"
  "totalSeconds (complete now s) = totalSeconds s"
  "remainingSeconds (complete now s) = remainingSeconds s"
  "intervalId (complete now s) = False"
  "sessionStartTime (complete now s) = sessionStartTime s"
  "isBreak (complete now s) = False"
  "triggeredWarnings (complete now s) = triggeredWarnings s"
  "emitted (complete now s) = emitted s @
     [CompleteEv \<lparr> duration = totalSeconds s, startTime = sessionStartTime s,
                   endTime = now, completed = True, wasBreak = isBreak s \<rparr>,
      StateChangeEv Idle None]"
  by (simp_all add: complete_def Let_def)

lemma tick_total [simp]: "totalSeconds (tick now s) = totalSeconds s"
  by (cases "0 < remainingSeconds s") (simp_all add: tick_pos_fields tick_zero complete_fields)

lemma start_idle_fields:
  assumes "state s = Idle"
  shows "state (start now s) = Running"
    and "totalSeconds (start now s) = totalSeconds s"
    and "remainingSeconds (start now s) = remainingSeconds s"
    and "intervalId (start now s) = True"
    and "sessionStartTime (start now s) = Some now"
    and "isBreak (start now s) = isBreak s"
    and "triggeredWarnings (start now s) = {}"
    and "emitted (start now s) = emitted s @ [StateChangeEv Running (Some (isBreak s))]"
  using assms by (simp_all add: start_def Let_def)

lemma abort_fields:
  "state (abort now s) = Idle"
  "totalSeconds (abort now s) = totalSeconds s"
  "remainingSeconds (abort now s) = totalSeconds s"
  "intervalId (abort now s) = False"
  "sessionStartTime (abort now s) = sessionStartTime s"
  "isBreak (abort now s) = False"
  "triggeredWarnings (abort now s) = {}"
  "emitted (abort now s) = emitted s @
     (if 60 < totalSeconds s - remainingSeconds s
      then [CompleteEv \<lparr> duration = totalSeconds s - remainingSeconds s,
                          startTime = sessionStartTime s, endTime = now,
                          completed = False, wasBreak = False \<rparr>]
      else []) @
     [TickEv (formatTime (totalSeconds s)) (totalSeconds s), StateChangeEv Idle None]"
  by (simp_all add: abort_def Let_def)

lemma reset_fields:
  "state (reset s) = Idle"
  "totalSeconds (reset s) = totalSeconds s"
  "remainingSeconds (reset s) = totalSeconds s"
  "intervalId (reset s) = False"
  "isBreak (reset s) = False"
  "triggeredWarnings (reset s) = {}"
  "emitted (reset s) = emitted s @
     [TickEv (formatTime (totalSeconds s)) (totalSeconds s), StateChangeEv Idle None]"
  by (simp_all add: reset_def Let_def)

lemma setTime_fields:
  assumes "state s \<noteq> Running"
  shows "state (setTime n s) = state s"
    and "totalSeconds (setTime n s) = max 60 (min n 43200)"
    and "remainingSeconds (setTime n s) = max 60 (min n 43200)"
    and "intervalId (setTime n s) = intervalId s"
    and "sessionStartTime (setTime n s) = sessionStartTime s"
    and "isBreak (setTime n s) = isBreak s"
    and "triggeredWarnings (setTime n s) = triggeredWarnings s"
    and "emitted (setTime n s) = emitted s @
           [TickEv (formatTime (max 60 (min n 43200))) (max 60 (min n 43200))]"
  using assms by (simp_all add: setTime_def Let_def)

subsection \<open>Runs of ticks\<close>

text \<open>
  A run of ticks that does not outlast the remaining time only counts down: no
  completion, no change of state.
\<close>

lemma ticks_countdown:
  "int (length ts) \<le> remainingSeconds s \<Longrightarrow>
     state (fold tick ts s) = state s \<and>
     totalSeconds (fold tick ts s) = totalSeconds s \<and>
     remainingSeconds (fold tick ts s) = remainingSeconds s - int (length ts) \<and>
     intervalId (fold tick ts s) = intervalId s \<and>
     sessionStartTime (fold tick ts s) = sessionStartTime s \<and>
     isBreak (fold tick ts s) = isBreak s \<and>
     completions (emitted (fold tick ts s)) = completions (emitted s)"
proof (induction ts arbitrary: s)
  case Nil
  then show ?case by simp
next
  case (Cons t ts)
  then have pos: "0 < remainingSeconds s" by simp
  have "int (length ts) \<le> remainingSeconds (tick t s)"
    using Cons.prems by (simp add: tick_pos_fields [OF pos])
  from Cons.IH [OF this] show ?case
    by (simp add: tick_pos_fields [OF pos])
qed

lemma reachable_ticks:
  "reachable ok s \<Longrightarrow> intervalId s \<Longrightarrow> int (length ts) \<le> remainingSeconds s \<Longrightarrow>
     reachable ok (fold tick ts s)"
proof (induction ts arbitrary: s)
  case Nil
  then show ?case by simp
next
  case (Cons t ts)
  then have pos: "0 < remainingSeconds s" by simp
  have "reachable ok (exec (Tick t) s)"
    using Cons.prems by (intro reachable_step) simp_all
  then have "reachable ok (tick t s)" by simp
  moreover have "intervalId (tick t s)" "int (length ts) \<le> remainingSeconds (tick t s)"
    using Cons.prems by (simp_all add: tick_pos_fields [OF pos])
  ultimately show ?case using Cons.IH by simp
qed

text \<open>The warnings of one tick, and of a run of ticks that only counts down.\<close>

lemma tick_warnings:
  assumes "0 < remainingSeconds s"
  shows "warnings (emitted (tick now s)) = warnings (emitted s) @
           filter (\<lambda>t. remainingSeconds s - 1 = t \<and> t \<notin> triggeredWarnings s) [300, 60]"
    and "triggeredWarnings (tick now s) = triggeredWarnings s \<union>
           {t \<in> {300, 60}. remainingSeconds s - 1 = t}"
  using assms by (auto simp add: tick_def Let_def WARNING_THRESHOLDS_def checkWarning_def)

lemma thresholds_split:
  fixes r n :: int and T :: "int set"
  assumes "0 \<le> n"
  shows "filter (\<lambda>t. r - 1 = t \<and> t \<notin> T) [300, 60] @
         filter (\<lambda>t. r - 1 - n \<le> t \<and> t < r - 1 \<and>
                     t \<notin> T \<union> {t \<in> {300, 60}. r - 1 = t}) [300, 60]
         = filter (\<lambda>t. r - (1 + n) \<le> t \<and> t < r \<and> t \<notin> T) [300, 60]"
proof -
  consider "r - 1 = 300" | "r - 1 = 60" | "r - 1 \<noteq> 300" "r - 1 \<noteq> 60" by blast
  then show ?thesis
  proof cases
    case 1
    then have "r = 301" by simp
    with assms show ?thesis by simp
  next
    case 2
    then have "r = 61" by simp
    with assms show ?thesis by simp
  next
    case 3
    with assms show ?thesis by simp
  qed
qed

lemma thresholds_union:
  fixes r n :: int
  assumes "0 \<le> n"
  shows "{t \<in> {300, 60}. r - 1 = t} \<union> {t \<in> {300, 60}. r - 1 - n \<le> t \<and> t < r - 1}
         = {t \<in> {300, 60}. r - (1 + n) \<le> t \<and> t < r}"
  using assms by auto

lemma ticks_warnings:
  "int (length ts) \<le> remainingSeconds s \<Longrightarrow>
     warnings (emitted (fold tick ts s)) = warnings (emitted s) @
       filter (\<lambda>t. remainingSeconds s - int (length ts) \<le> t \<and> t < remainingSeconds s \<and>
                   t \<notin> triggeredWarnings s) [300, 60] \<and>
     triggeredWarnings (fold tick ts s) = triggeredWarnings s \<union>
       {t \<in> {300, 60}. remainingSeconds s - int (length ts) \<le> t \<and> t < remainingSeconds s}"
proof (induction ts arbitrary: s)
  case Nil
  show ?case
  proof (rule conjI)
    show "warnings (emitted (fold tick [] s)) = warnings (emitted s) @
       filter (\<lambda>t. remainingSeconds s - int (length ([]::date list)) \<le> t \<and>
                   t < remainingSeconds s \<and> t \<notin> triggeredWarnings s) [300, 60]"
      by simp
    show "triggeredWarnings (fold tick [] s) = triggeredWarnings s \<union>
       {t \<in> {300, 60}. remainingSeconds s - int (length ([]::date list)) \<le> t \<and>
                         t < remainingSeconds s}"
      by auto
  qed
next
  case (Cons a ts)
  let ?r = "remainingSeconds s" and ?T = "triggeredWarnings s" and ?n = "int (length ts)"
  from Cons.prems have pos: "0 < ?r" by simp
  have r1: "remainingSeconds (tick a s) = ?r - 1"
    by (rule tick_pos_fields(3) [OF pos])
  have le: "?n \<le> remainingSeconds (tick a s)"
    using Cons.prems by (simp add: r1)
  note ih = Cons.IH [OF le, unfolded r1 tick_warnings [OF pos]]
  have n0: "0 \<le> ?n" by simp
  have "warnings (emitted (fold tick (a # ts) s)) =
          warnings (emitted s) @
          (filter (\<lambda>t. ?r - 1 = t \<and> t \<notin> ?T) [300, 60] @
           filter (\<lambda>t. ?r - 1 - ?n \<le> t \<and> t < ?r - 1 \<and>
                       t \<notin> ?T \<union> {t \<in> {300, 60}. ?r - 1 = t}) [300, 60])"
    using ih by simp
  then have w: "warnings (emitted (fold tick (a # ts) s)) =
          warnings (emitted s) @
          filter (\<lambda>t. ?r - (1 + ?n) \<le> t \<and> t < ?r \<and> t \<notin> ?T) [300, 60]"
    by (simp only: thresholds_split [OF n0])
  have "triggeredWarnings (fold tick (a # ts) s) =
          ?T \<union> ({t \<in> {300, 60}. ?r - 1 = t} \<union>
                {t \<in> {300, 60}. ?r - 1 - ?n \<le> t \<and> t < ?r - 1})"
    using ih by (simp add: Un_assoc)
  then have t: "triggeredWarnings (fold tick (a # ts) s) =
          ?T \<union> {t \<in> {300, 60}. ?r - (1 + ?n) \<le> t \<and> t < ?r}"
    by (simp only: thresholds_union [OF n0])
  have len: "int (length (a # ts)) = 1 + ?n" by simp
  show ?case
    unfolding len using w t by (rule conjI)
qed

subsection \<open>A one-minute session run to its end\<close>

lemma minute_session:
  "state (start 0 (setTime 60 init)) = Running"
  "remainingSeconds (start 0 (setTime 60 init)) = 60"
  "totalSeconds (start 0 (setTime 60 init)) = 60"
  "intervalId (start 0 (setTime 60 init))"
  "sessionStartTime (start 0 (setTime 60 init)) = Some 0"
  "isBreak (start 0 (setTime 60 init)) = False"
  "completions (emitted (start 0 (setTime 60 init))) = []"
  by (simp_all add: init_def setTime_def start_def Let_def)

lemma minute_session_reachable: "reachable ok (start 0 (setTime 60 init))"
proof -
  have "reachable ok (exec (SetTime 60) init)"
    by (rule reachable_step [OF reachable_init]) simp
  then have "reachable ok (exec (Start 0) (exec (SetTime 60) init))"
    by (rule reachable_step) simp
  then show ?thesis by simp
qed

lemma minute_session_run:
  assumes "length ts = 60"
  shows "state (fold tick ts (start 0 (setTime 60 init))) = Running"
    and "remainingSeconds (fold tick ts (start 0 (setTime 60 init))) = 0"
    and "totalSeconds (fold tick ts (start 0 (setTime 60 init))) = 60"
    and "sessionStartTime (fold tick ts (start 0 (setTime 60 init))) = Some 0"
    and "isBreak (fold tick ts (start 0 (setTime 60 init))) = False"
    and "completions (emitted (fold tick ts (start 0 (setTime 60 init)))) = []"
    and "reachable ok (fold tick ts (start 0 (setTime 60 init)))"
proof -
  have len: "int (length ts) \<le> remainingSeconds (start 0 (setTime 60 init))"
    using assms by (simp add: minute_session)
  note cd = ticks_countdown [OF len]
  show "state (fold tick ts (start 0 (setTime 60 init))) = Running"
    and "remainingSeconds (fold tick ts (start 0 (setTime 60 init))) = 0"
    and "totalSeconds (fold tick ts (start 0 (setTime 60 init))) = 60"
    and "sessionStartTime (fold tick ts (start 0 (setTime 60 init))) = Some 0"
    and "isBreak (fold tick ts (start 0 (setTime 60 init))) = False"
    and "completions (emitted (fold tick ts (start 0 (setTime 60 init)))) = []"
    using cd assms by (simp_all add: minute_session)
  show "reachable ok (fold tick ts (start 0 (setTime 60 init)))"
    using minute_session_reachable minute_session(4) len by (rule reachable_ticks)
qed

lemma minute_session_end:
  assumes "length ts = 60"
  shows "remainingSeconds (tick t (fold tick ts (start 0 (setTime 60 init))))
           \<noteq> remainingSeconds (fold tick ts (start 0 (setTime 60 init))) - 1"
    and "completions (emitted (abort t' (tick t (fold tick ts (start 0 (setTime 60 init))))))
           = [\<lparr> duration = 60, startTime = Some 0, endTime = t, completed = True,
                wasBreak = False \<rparr>]"
proof -
  note run = minute_session_run [OF assms]
  have "tick t (fold tick ts (start 0 (setTime 60 init)))
          = complete t (fold tick ts (start 0 (setTime 60 init)))"
    using run(2) by (simp add: tick_zero)
  then show "remainingSeconds (tick t (fold tick ts (start 0 (setTime 60 init))))
           \<noteq> remainingSeconds (fold tick ts (start 0 (setTime 60 init))) - 1"
    and "completions (emitted (abort t' (tick t (fold tick ts (start 0 (setTime 60 init))))))
           = [\<lparr> duration = 60, startTime = Some 0, endTime = t, completed = True,
                wasBreak = False \<rparr>]"
    using run by (simp_all add: abort_fields complete_fields)
qed

lemma sixty: "length (replicate 60 (0::date)) = 60"
  by (simp only: length_replicate)

subsection \<open>Invariants of the reachable states\<close>

lemma exec_keeps_bounds:
  assumes "0 \<le> remainingSeconds s \<and> remainingSeconds s \<le> totalSeconds s \<and>
           (intervalId s \<longleftrightarrow> state s = Running)"
    and "enabled (\<lambda>b. 0 \<le> b) c s"
  shows "0 \<le> remainingSeconds (exec c s) \<and>
         remainingSeconds (exec c s) \<le> totalSeconds (exec c s) \<and>
         (intervalId (exec c s) \<longleftrightarrow> state (exec c s) = Running)"
proof (cases c)
  case (Tick now)
  show ?thesis
  proof (cases "0 < remainingSeconds s")
    case True
    then show ?thesis using assms Tick by (simp add: tick_pos_fields)
  next
    case False
    then show ?thesis using assms Tick by (simp add: tick_zero complete_fields)
  qed
next
  case (StartBreak now b)
  then show ?thesis using assms by (simp add: startBreak_def start_def Let_def)
qed (use assms in \<open>auto simp add: start_def pause_def toggle_def reset_def abort_fields
        setTime_def adjustTime_def Let_def\<close>)

lemma reachable_bounds:
  "reachable (\<lambda>b. 0 \<le> b) s \<Longrightarrow>
     0 \<le> remainingSeconds s \<and> remainingSeconds s \<le> totalSeconds s \<and>
     (intervalId s \<longleftrightarrow> state s = Running)"
proof (induction rule: reachable.induct)
  case reachable_init
  show ?case by (simp add: init_def)
next
  case (reachable_step s c)
  then show ?case by (intro exec_keeps_bounds)
qed

lemma exec_keeps_total:
  assumes "60 \<le> totalSeconds s \<and> totalSeconds s \<le> 43200"
    and "enabled (\<lambda>b. 60 \<le> b \<and> b \<le> 43200) c s"
  shows "60 \<le> totalSeconds (exec c s) \<and> totalSeconds (exec c s) \<le> 43200"
  using assms
  by (cases c) (auto simp add: start_def pause_def toggle_def reset_def abort_fields
        setTime_def adjustTime_def startBreak_def Let_def)

lemma reachable_total:
  "reachable (\<lambda>b. 60 \<le> b \<and> b \<le> 43200) s \<Longrightarrow>
     60 \<le> totalSeconds s \<and> totalSeconds s \<le> 43200"
proof (induction rule: reachable.induct)
  case reachable_init
  show ?case by (simp add: init_def)
next
  case (reachable_step s c)
  then show ?case by (intro exec_keeps_total)
qed

subsection \<open>Warnings within one session\<close>

lemma checkWarning_budget: "warningBudget th (checkWarning t s) \<le> warningBudget th s"
  by (simp add: warningBudget_def checkWarning_def)

lemma tick_budget: "warningBudget th (tick now s) \<le> warningBudget th s"
proof (cases "0 < remainingSeconds s")
  case True
  let ?s1 = "s\<lparr> remainingSeconds := remainingSeconds s - 1 \<rparr>"
  have "warningBudget th (tick now s) = warningBudget th (checkWarning 60 (checkWarning 300 ?s1))"
    using True by (simp add: tick_def Let_def WARNING_THRESHOLDS_def warningBudget_def)
  also have "\<dots> \<le> warningBudget th (checkWarning 300 ?s1)"
    by (rule checkWarning_budget)
  also have "\<dots> \<le> warningBudget th ?s1"
    by (rule checkWarning_budget)
  also have "\<dots> = warningBudget th s"
    by (simp add: warningBudget_def)
  finally show ?thesis .
next
  case False
  then show ?thesis by (simp add: tick_zero complete_fields warningBudget_def)
qed

lemma exec_budget: "keepsSession c s \<Longrightarrow> warningBudget th (exec c s) \<le> warningBudget th s"
proof (cases c)
  case (Tick now)
  then show ?thesis by (simp add: tick_budget)
qed (auto simp add: warningBudget_def start_def pause_def toggle_def setTime_def
       adjustTime_def Let_def)

lemma run_budget:
  "sessionRun cs s \<Longrightarrow> warningBudget th (fold exec cs s) \<le> warningBudget th s"
proof (induction cs arbitrary: s)
  case Nil
  show ?case by simp
next
  case (Cons c cs)
  then have "warningBudget th (fold exec cs (exec c s)) \<le> warningBudget th (exec c s)"
    by simp
  also have "\<dots> \<le> warningBudget th s"
    using Cons.prems by (simp add: exec_budget)
  finally show ?case by simp
qed

lemma session_warning_count:
  assumes "sessionRun cs s"
  shows "count_list (warnings (emitted (fold exec cs s))) th
           \<le> count_list (warnings (emitted s)) th + 1"
proof -
  have "count_list (warnings (emitted (fold exec cs s))) th
          \<le> warningBudget th (fold exec cs s)"
    by (simp add: warningBudget_def)
  also have "\<dots> \<le> warningBudget th s"
    using assms by (rule run_budget)
  also have "\<dots> \<le> count_list (warnings (emitted s)) th + 1"
    by (simp add: warningBudget_def)
  finally show ?thesis .
qed

section \<open>The claims about the timer\<close>

subsection \<open>Natural completion\<close>

text \<open>
  C1 (as the code has it). \<open>tick\<close> tests \<open>remainingSeconds \<le> 0\<close> before it counts
  down, so the 14400 ticks after \<open>start()\<close> bring \<open>remainingSeconds\<close> from 14400 to 0
  and leave the timer Running with no completion event; the next tick, the 14401st,
  emits the one completion event, with \<open>completed = true\<close> and \<open>duration = 14400\<close>,
  and leaves the timer Idle.
\<close>

theorem completion_on_tick_after_zero:
  assumes "state s = Idle" and "totalSeconds s = 14400" and "remainingSeconds s = 14400"
    and "length ts = 14400"
  shows "let r = fold tick ts (start t0 s); r' = tick t r in
           state r = Running \<and> remainingSeconds r = 0 \<and>
           completions (emitted r) = completions (emitted s) \<and>
           state r' = Idle \<and>
           completions (emitted r') = completions (emitted s) @
             [\<lparr> duration = 14400, startTime = Some t0, endTime = t,
                completed = True, wasBreak = isBreak s \<rparr>]"
proof -
  let ?s0 = "start t0 s"
  let ?r = "fold tick ts ?s0"
  have len: "int (length ts) \<le> remainingSeconds ?s0"
    using assms by (simp add: start_idle_fields)
  note cd = ticks_countdown [OF len]
  have r: "state ?r = Running" "remainingSeconds ?r = 0" "totalSeconds ?r = 14400"
    "sessionStartTime ?r = Some t0" "isBreak ?r = isBreak s"
    "completions (emitted ?r) = completions (emitted s)"
    using cd assms by (simp_all add: start_idle_fields)
  have "tick t ?r = complete t ?r"
    using r(2) by (simp add: tick_zero)
  then show ?thesis
    using r by (simp add: Let_def complete_fields)
qed

theorem completion_on_tick_after_zero_witness:
  "state init = Idle \<and> totalSeconds init = 14400 \<and> remainingSeconds init = 14400 \<and>
   length (replicate 14400 (0::date)) = 14400 \<and>
   (let r = fold tick (replicate 14400 0) (start 0 init); r' = tick 14401000 r in
           state r = Running \<and> remainingSeconds r = 0 \<and>
           completions (emitted r) = completions (emitted init) \<and>
           state r' = Idle \<and>
           completions (emitted r') = completions (emitted init) @
             [\<lparr> duration = 14400, startTime = Some 0, endTime = 14401000,
                completed = True, wasBreak = isBreak init \<rparr>])"
proof -
  have a: "state init = Idle" and b: "totalSeconds init = 14400"
    and c: "remainingSeconds init = 14400"
    by (simp_all add: init_def)
  have d: "length (replicate 14400 (0::date)) = 14400"
    by (simp only: length_replicate)
  from a b c d completion_on_tick_after_zero [OF a b c d, of 0 14401000]
  show ?thesis by blast
qed

text \<open>
  The claim C1 as written fails: from the initial state, after \<open>start()\<close> and exactly
  14400 ticks the timer is not Idle and no completion event has been emitted.
\<close>

theorem no_completion_after_14400_ticks:
  "state (fold tick (replicate 14400 0) (start 0 init)) \<noteq> Idle \<and>
   completions (emitted (fold tick (replicate 14400 0) (start 0 init))) = []"
proof -
  have i: "state init = Idle" by (simp add: init_def)
  have "int (length (replicate 14400 (0::date))) \<le> remainingSeconds (start 0 init)"
    by (simp only: length_replicate start_idle_fields [OF i]) (simp add: init_def)
  from ticks_countdown [OF this] show ?thesis
    by (simp only: start_idle_fields [OF i]) (simp add: init_def)
qed

text \<open>
  C2 (as the code has it). A tick that fires while Running with
  \<open>remainingSeconds = 0\<close> leaves the timer Idle with \<open>remainingSeconds = 0\<close> and
  \<open>totalSeconds\<close> unchanged. From there, with no \<open>reset()\<close> or \<open>setTime()\<close> between,
  \<open>start()\<close> and its first tick emit a second completion event
  (\<open>completed = true\<close>, \<open>duration = totalSeconds\<close>); and \<open>abort()\<close> emits a completion
  event with \<open>completed = false\<close> and \<open>duration = totalSeconds\<close> when
  \<open>totalSeconds > 60\<close>, and none when \<open>totalSeconds \<le> 60\<close>.
\<close>

theorem repeat_after_completion:
  assumes "state s = Running" and "remainingSeconds s = 0"
  shows "let s1 = tick t1 s in
           state s1 = Idle \<and> remainingSeconds s1 = 0 \<and> totalSeconds s1 = totalSeconds s \<and>
           emitted (tick t3 (start t2 s1)) = emitted s1 @
             [StateChangeEv Running (Some False),
              CompleteEv \<lparr> duration = totalSeconds s, startTime = Some t2, endTime = t3,
                           completed = True, wasBreak = False \<rparr>,
              StateChangeEv Idle None] \<and>
           emitted (abort t2 s1) = emitted s1 @
             (if 60 < totalSeconds s
              then [CompleteEv \<lparr> duration = totalSeconds s,
                                  startTime = sessionStartTime s, endTime = t2,
                                  completed = False, wasBreak = False \<rparr>]
              else []) @
             [TickEv (formatTime (totalSeconds s)) (totalSeconds s), StateChangeEv Idle None]"
proof -
  let ?s1 = "tick t1 s"
  have s1: "?s1 = complete t1 s"
    using assms(2) by (simp add: tick_zero)
  have idle: "state ?s1 = Idle" and rem: "remainingSeconds ?s1 = 0"
    and tot: "totalSeconds ?s1 = totalSeconds s"
    and brk: "isBreak ?s1 = False"
    and sst: "sessionStartTime ?s1 = sessionStartTime s"
    using assms(2) by (simp_all add: s1 complete_fields)
  have "remainingSeconds (start t2 ?s1) \<le> 0"
    using rem by (simp add: start_idle_fields [OF idle])
  then have "tick t3 (start t2 ?s1) = complete t3 (start t2 ?s1)"
    by (rule tick_zero)
  then have again: "emitted (tick t3 (start t2 ?s1)) = emitted ?s1 @
             [StateChangeEv Running (Some False),
              CompleteEv \<lparr> duration = totalSeconds s, startTime = Some t2, endTime = t3,
                           completed = True, wasBreak = False \<rparr>,
              StateChangeEv Idle None]"
    by (simp add: complete_fields start_idle_fields [OF idle] brk tot)
  have ab: "emitted (abort t2 ?s1) = emitted ?s1 @
             (if 60 < totalSeconds s
              then [CompleteEv \<lparr> duration = totalSeconds s,
                                  startTime = sessionStartTime s, endTime = t2,
                                  completed = False, wasBreak = False \<rparr>]
              else []) @
             [TickEv (formatTime (totalSeconds s)) (totalSeconds s), StateChangeEv Idle None]"
    by (simp add: abort_fields rem tot sst)
  show ?thesis
    unfolding Let_def using idle rem tot again ab by blast
qed

theorem repeat_after_completion_witness:
  "state (init\<lparr> state := Running, remainingSeconds := 0, intervalId := True \<rparr>) = Running \<and>
   remainingSeconds (init\<lparr> state := Running, remainingSeconds := 0, intervalId := True \<rparr>) = 0 \<and>
   completions (emitted (tick 2 (start 1 (tick 0
      (init\<lparr> state := Running, remainingSeconds := 0, intervalId := True \<rparr>))))) =
     [\<lparr> duration = 14400, startTime = None, endTime = 0, completed = True,
        wasBreak = False \<rparr>,
      \<lparr> duration = 14400, startTime = Some 1, endTime = 2, completed = True,
        wasBreak = False \<rparr>] \<and>
   completions (emitted (abort 1 (tick 0
      (init\<lparr> state := Running, remainingSeconds := 0, intervalId := True \<rparr>)))) =
     [\<lparr> duration = 14400, startTime = None, endTime = 0, completed = True,
        wasBreak = False \<rparr>,
      \<lparr> duration = 14400, startTime = None, endTime = 1, completed = False,
        wasBreak = False \<rparr>]"
proof -
  let ?s = "init\<lparr> state := Running, remainingSeconds := 0, intervalId := True \<rparr>"
  have a: "state ?s = Running" and b: "remainingSeconds ?s = 0"
    by simp_all
  have c: "tick 0 ?s = complete 0 ?s"
    by (simp add: tick_zero)
  have d: "totalSeconds ?s = 14400" "sessionStartTime ?s = None" "isBreak ?s = False"
    "emitted ?s = []"
    by (simp_all add: init_def)
  from repeat_after_completion [OF a b, of 0 2 1] a b show ?thesis
    by (simp add: Let_def c d complete_fields)
qed

text \<open>
  The claim C2 as written fails for a one-minute session: \<open>setTime(60)\<close>, \<open>start()\<close>
  and 60 ticks reach Running with \<open>remainingSeconds = 0\<close>; after the completing tick,
  \<open>abort()\<close> emits no completion event (the natural completion's event is the only
  one in the log).
\<close>

theorem no_abort_event_after_minute_session:
  "state (fold tick (replicate 60 0) (start 0 (setTime 60 init))) = Running \<and>
   remainingSeconds (fold tick (replicate 60 0) (start 0 (setTime 60 init))) = 0 \<and>
   completions (emitted
     (abort 0 (tick 0 (fold tick (replicate 60 0) (start 0 (setTime 60 init)))))) =
     [\<lparr> duration = 60, startTime = Some 0, endTime = 0, completed = True,
        wasBreak = False \<rparr>]"
  using minute_session_run(1,2) [OF sixty] minute_session_end(2) [OF sixty]
  by blast

subsection \<open>Bounds on the remaining and the total time\<close>

text \<open>
  C3 (as the code has it). In every state reached from the initial one by calls of the
  interface and firings of the interval, where \<open>startBreak\<close> is only called with
  arguments \<open>\<ge> 0\<close>, \<open>0 \<le> remainingSeconds \<le> totalSeconds\<close> holds. A tick while
  Running with \<open>remainingSeconds > 0\<close> decreases \<open>remainingSeconds\<close> by exactly 1; a
  tick while Running with \<open>remainingSeconds = 0\<close> leaves it at 0 and completes the
  session.
\<close>

theorem remaining_within_bounds:
  assumes "reachable (\<lambda>b. 0 \<le> b) s"
  shows "0 \<le> remainingSeconds s \<and> remainingSeconds s \<le> totalSeconds s \<and>
         (state s = Running \<and> 0 < remainingSeconds s \<longrightarrow>
            remainingSeconds (tick now s) = remainingSeconds s - 1) \<and>
         (state s = Running \<and> remainingSeconds s = 0 \<longrightarrow>
            remainingSeconds (tick now s) = 0 \<and> state (tick now s) = Idle)"
  using reachable_bounds [OF assms]
  by (simp add: tick_pos_fields tick_zero complete_fields)

theorem remaining_within_bounds_witness:
  "reachable (\<lambda>b. 0 \<le> b) (start 0 init) \<and>
   state (start 0 init) = Running \<and>
   0 < remainingSeconds (start 0 init) \<and>
   remainingSeconds (start 0 init) \<le> totalSeconds (start 0 init) \<and>
   remainingSeconds (tick 1000 (start 0 init)) = remainingSeconds (start 0 init) - 1 \<and>
   reachable (\<lambda>b. 0 \<le> b) (fold tick (replicate 60 0) (start 0 (setTime 60 init))) \<and>
   state (fold tick (replicate 60 0) (start 0 (setTime 60 init))) = Running \<and>
   remainingSeconds (fold tick (replicate 60 0) (start 0 (setTime 60 init))) = 0 \<and>
   remainingSeconds (tick 0 (fold tick (replicate 60 0) (start 0 (setTime 60 init)))) = 0 \<and>
   state (tick 0 (fold tick (replicate 60 0) (start 0 (setTime 60 init)))) = Idle"
proof -
  have "reachable (\<lambda>b. 0 \<le> b) (exec (Start 0) init)"
    by (rule reachable_step [OF reachable_init]) simp
  then have a: "reachable (\<lambda>b. 0 \<le> b) (start 0 init)"
    by simp
  have b: "state (start 0 init) = Running" "0 < remainingSeconds (start 0 init)"
    by (simp_all add: start_def init_def Let_def)
  note run = minute_session_run [OF sixty]
  from remaining_within_bounds [OF a, of 1000]
    remaining_within_bounds [OF run(7), of 0] a b run(7) run(1) run(2)
  show ?thesis by blast
qed

text \<open>
  The claim C3 as written fails twice. After \<open>setTime(60)\<close>, \<open>start()\<close> and 60 ticks
  the timer is Running with \<open>remainingSeconds = 0\<close>, and the next tick does not
  decrease it. And \<open>startBreak(-5)\<close> on the initial state leaves \<open>remainingSeconds\<close>
  negative.
\<close>

theorem tick_without_decrement:
  "reachable (\<lambda>b. True) (fold tick (replicate 60 0) (start 0 (setTime 60 init))) \<and>
   state (fold tick (replicate 60 0) (start 0 (setTime 60 init))) = Running \<and>
   remainingSeconds (tick 0 (fold tick (replicate 60 0) (start 0 (setTime 60 init))))
     \<noteq> remainingSeconds (fold tick (replicate 60 0) (start 0 (setTime 60 init))) - 1 \<and>
   reachable (\<lambda>b. True) (startBreak 0 (- 5) init) \<and>
   remainingSeconds (startBreak 0 (- 5) init) < 0"
proof -
  have "reachable (\<lambda>b. True) (exec (StartBreak 0 (- 5)) init)"
    by (rule reachable_step [OF reachable_init]) simp
  then have b: "reachable (\<lambda>b. True) (startBreak 0 (- 5) init)"
    by simp
  have c: "remainingSeconds (startBreak 0 (- 5) init) < 0"
    by (simp add: startBreak_def start_def init_def Let_def)
  from minute_session_run(7,1) [OF sixty] minute_session_end(1) [OF sixty] b c
  show ?thesis by blast
qed

text \<open>
  C4 (as the code has it). \<open>setTime\<close> and \<open>adjustTime\<close> assign \<open>totalSeconds\<close> only
  while the timer is not Running, and clamp the value into \<open>[60, 43200]\<close>; \<open>start\<close>,
  \<open>pause\<close>, \<open>toggle\<close>, \<open>reset\<close>, \<open>abort\<close> and \<open>tick\<close> never change it; \<open>startBreak\<close>
  assigns its argument as it is, in any state. So \<open>totalSeconds\<close> lies in
  \<open>[60, 43200]\<close> in every state reached with \<open>startBreak\<close> arguments in \<open>[60, 43200]\<close>.
\<close>

theorem total_within_bounds:
  assumes "reachable (\<lambda>b. 60 \<le> b \<and> b \<le> 43200) s"
  shows "60 \<le> totalSeconds s \<and> totalSeconds s \<le> 43200 \<and>
         (state s = Running \<longrightarrow>
            totalSeconds (setTime n s) = totalSeconds s \<and>
            totalSeconds (adjustTime d s) = totalSeconds s) \<and>
         (state s \<noteq> Running \<longrightarrow>
            totalSeconds (setTime n s) = max 60 (min n 43200) \<and>
            totalSeconds (adjustTime d s) = max 60 (min (totalSeconds s + d) 43200)) \<and>
         totalSeconds (start now s) = totalSeconds s \<and>
         totalSeconds (pause s) = totalSeconds s \<and>
         totalSeconds (toggle now s) = totalSeconds s \<and>
         totalSeconds (reset s) = totalSeconds s \<and>
         totalSeconds (abort now s) = totalSeconds s \<and>
         totalSeconds (tick now s) = totalSeconds s \<and>
         totalSeconds (startBreak now b s) = b"
  using reachable_total [OF assms]
  by (simp add: setTime_def adjustTime_def start_def pause_def toggle_def reset_def
        abort_fields startBreak_def Let_def)

theorem total_within_bounds_witness:
  "reachable (\<lambda>b. 60 \<le> b \<and> b \<le> 43200) (setTime 10 init) \<and>
   state (setTime 10 init) \<noteq> Running \<and>
   60 \<le> totalSeconds (setTime 10 init) \<and>
   totalSeconds (setTime 10 init) \<le> 43200 \<and>
   totalSeconds (setTime 999999 (setTime 10 init)) = max 60 (min 999999 43200) \<and>
   totalSeconds (adjustTime 900 (setTime 10 init))
     = max 60 (min (totalSeconds (setTime 10 init) + 900) 43200) \<and>
   reachable (\<lambda>b. 60 \<le> b \<and> b \<le> 43200) (start 0 init) \<and>
   state (start 0 init) = Running \<and>
   totalSeconds (setTime 60 (start 0 init)) = totalSeconds (start 0 init) \<and>
   totalSeconds (adjustTime 900 (start 0 init)) = totalSeconds (start 0 init)"
proof -
  have "reachable (\<lambda>b. 60 \<le> b \<and> b \<le> 43200) (exec (SetTime 10) init)"
    by (rule reachable_step [OF reachable_init]) simp
  then have a: "reachable (\<lambda>b. 60 \<le> b \<and> b \<le> 43200) (setTime 10 init)"
    by simp
  have b: "state (setTime 10 init) \<noteq> Running"
    by (simp add: setTime_def init_def Let_def)
  have "reachable (\<lambda>b. 60 \<le> b \<and> b \<le> 43200) (exec (Start 0) init)"
    by (rule reachable_step [OF reachable_init]) simp
  then have c: "reachable (\<lambda>b. 60 \<le> b \<and> b \<le> 43200) (start 0 init)"
    by simp
  have d: "state (start 0 init) = Running"
    by (simp add: start_def init_def Let_def)
  from total_within_bounds [OF a, of 999999 900] total_within_bounds [OF c, of 60 900]
    a b c d
  show ?thesis by blast
qed

text \<open>
  The claim C4 as written fails: \<open>startBreak(30)\<close> on the initial state sets
  \<open>totalSeconds\<close> to 30, below the range; and \<open>startBreak(300)\<close> while Running changes
  \<open>totalSeconds\<close>.
\<close>

theorem startBreak_sets_total_unclamped:
  "reachable (\<lambda>b. True) (startBreak 0 30 init) \<and>
   totalSeconds (startBreak 0 30 init) = 30 \<and>
   reachable (\<lambda>b. True) (start 0 init) \<and>
   state (start 0 init) = Running \<and>
   totalSeconds (startBreak 0 300 (start 0 init)) \<noteq> totalSeconds (start 0 init)"
proof -
  have "reachable (\<lambda>b. True) (exec (StartBreak 0 30) init)"
    by (rule reachable_step [OF reachable_init]) simp
  moreover have "reachable (\<lambda>b. True) (exec (Start 0) init)"
    by (rule reachable_step [OF reachable_init]) simp
  ultimately show ?thesis
    by (simp add: startBreak_def start_def init_def Let_def)
qed

subsection \<open>Aborting\<close>

text \<open>
  C7. \<open>abort()\<close> emits a completion event exactly when the elapsed time
  \<open>totalSeconds - remainingSeconds\<close> is greater than 60, and then one with
  \<open>completed = false\<close> and that duration. Aborting after \<open>start()\<close> and 30 ticks emits
  no completion event; aborting after \<open>start()\<close> and 61 ticks emits exactly one, with
  \<open>completed = false\<close> and \<open>duration = 61\<close>.
\<close>

theorem abort_logs_only_after_a_minute:
  assumes "state s = Idle" and "remainingSeconds s = totalSeconds s"
    and "61 \<le> totalSeconds s" and "length ts = 30" and "length us = 61"
  shows "emitted (abort now x) = emitted x @
           (if 60 < totalSeconds x - remainingSeconds x
            then [CompleteEv \<lparr> duration = totalSeconds x - remainingSeconds x,
                                startTime = sessionStartTime x, endTime = now,
                                completed = False, wasBreak = False \<rparr>]
            else []) @
           [TickEv (formatTime (totalSeconds x)) (totalSeconds x), StateChangeEv Idle None] \<and>
         completions (emitted (abort now (fold tick ts (start t0 s))))
           = completions (emitted s) \<and>
         completions (emitted (abort now (fold tick us (start t0 s))))
           = completions (emitted s) @
               [\<lparr> duration = 61, startTime = Some t0, endTime = now,
                  completed = False, wasBreak = False \<rparr>]"
proof -
  let ?s0 = "start t0 s"
  have s0: "remainingSeconds ?s0 = totalSeconds s" "totalSeconds ?s0 = totalSeconds s"
    "sessionStartTime ?s0 = Some t0" "completions (emitted ?s0) = completions (emitted s)"
    using assms(1,2) by (simp_all add: start_idle_fields)
  have "int (length ts) \<le> remainingSeconds ?s0"
    using assms by (simp add: s0)
  note a = ticks_countdown [OF this]
  have "int (length us) \<le> remainingSeconds ?s0"
    using assms by (simp add: s0)
  note b = ticks_countdown [OF this]
  have "completions (emitted (abort now (fold tick ts ?s0))) = completions (emitted s)"
    using a assms by (simp add: abort_fields s0)
  moreover have "completions (emitted (abort now (fold tick us ?s0)))
           = completions (emitted s) @
               [\<lparr> duration = 61, startTime = Some t0, endTime = now,
                  completed = False, wasBreak = False \<rparr>]"
    using b assms by (simp add: abort_fields s0)
  ultimately show ?thesis
    using abort_fields(8) [of now x] by blast
qed

theorem abort_logs_only_after_a_minute_witness:
  "state init = Idle \<and> remainingSeconds init = totalSeconds init \<and>
   61 \<le> totalSeconds init \<and>
   length (replicate 30 (0::date)) = 30 \<and> length (replicate 61 (0::date)) = 61 \<and>
   completions (emitted (abort 30000 (fold tick (replicate 30 0) (start 0 init)))) = [] \<and>
   completions (emitted (abort 61000 (fold tick (replicate 61 0) (start 0 init))))
     = [\<lparr> duration = 61, startTime = Some 0, endTime = 61000,
          completed = False, wasBreak = False \<rparr>]"
proof -
  have a: "state init = Idle" and b: "remainingSeconds init = totalSeconds init"
    and c: "61 \<le> totalSeconds init" and e: "completions (emitted init) = []"
    by (simp_all add: init_def)
  have d: "length (replicate 30 (0::date)) = 30" "length (replicate 61 (0::date)) = 61"
    by (simp_all only: length_replicate)
  note th = abort_logs_only_after_a_minute [OF a b c d, of _ init 0, unfolded e append_Nil]
  from th [of 30000] th [of 61000] a b c d show ?thesis by blast
qed

subsection \<open>Warnings\<close>

text \<open>
  C8. Within one session each warning threshold fires at most once: over any calls
  that stay in one session, at most one more warning event is emitted for a threshold.
  With \<open>totalSeconds = 400\<close>, \<open>start()\<close> and 100 ticks reach \<open>remainingSeconds = 300\<close>
  and emit exactly one warning, for 300; 240 more ticks reach \<open>remainingSeconds = 60\<close>
  and emit exactly one more, for 60. After \<open>reset()\<close> and a fresh \<open>start()\<close> the set of
  triggered warnings is empty, and 340 ticks emit both warnings again.
\<close>

theorem warnings_once_per_session:
  assumes "sessionRun cs x"
    and "state s = Idle"
    and "length ts1 = 100" and "length ts2 = 240" and "length ts3 = 340"
  shows "count_list (warnings (emitted (fold exec cs x))) th
           \<le> count_list (warnings (emitted x)) th + 1 \<and>
         (let s0 = start t0 (setTime 400 s);
              r1 = fold tick ts1 s0;
              r2 = fold tick ts2 r1;
              s3 = start t1 (reset r2);
              r3 = fold tick ts3 s3
          in remainingSeconds r1 = 300 \<and>
             warnings (emitted r1) = warnings (emitted s) @ [300] \<and>
             remainingSeconds r2 = 60 \<and>
             warnings (emitted r2) = warnings (emitted s) @ [300, 60] \<and>
             triggeredWarnings s3 = {} \<and>
             remainingSeconds s3 = 400 \<and>
             remainingSeconds r3 = 60 \<and>
             warnings (emitted r3) = warnings (emitted s) @ [300, 60, 300, 60])"
proof -
  let ?s0 = "start t0 (setTime 400 s)"
  let ?r1 = "fold tick ts1 ?s0"
  let ?r2 = "fold tick ts2 ?r1"
  let ?s3 = "start t1 (reset ?r2)"
  let ?r3 = "fold tick ts3 ?s3"
  have nr: "state s \<noteq> Running" using assms(2) by simp
  have idle: "state (setTime 400 s) = Idle"
    using assms(2) by (simp add: setTime_fields [OF nr])
  have s0: "remainingSeconds ?s0 = 400" "triggeredWarnings ?s0 = {}"
    "warnings (emitted ?s0) = warnings (emitted s)"
    by (simp_all add: start_idle_fields [OF idle] setTime_fields [OF nr])
  have l1: "int (length ts1) \<le> remainingSeconds ?s0"
    using assms(3) by (simp add: s0)
  have r1: "remainingSeconds ?r1 = 300" "totalSeconds ?r1 = 400"
    using ticks_countdown [OF l1] assms(3)
    by (simp_all add: s0 start_idle_fields [OF idle] setTime_fields [OF nr])
  have set1: "{t \<in> {300, 60::int}. 300 \<le> t \<and> t < 400} = {300}"
    by auto
  have w1: "warnings (emitted ?r1) = warnings (emitted s) @ [300]"
    "triggeredWarnings ?r1 = {300}"
    using ticks_warnings [OF l1] assms(3) set1 by (simp_all add: s0)
  have l2: "int (length ts2) \<le> remainingSeconds ?r1"
    using assms(4) by (simp add: r1)
  have r2: "remainingSeconds ?r2 = 60" "totalSeconds ?r2 = 400"
    using ticks_countdown [OF l2] assms(4) by (simp_all add: r1)
  have w2: "warnings (emitted ?r2) = warnings (emitted s) @ [300, 60]"
    using ticks_warnings [OF l2] assms(4) by (simp add: r1 w1)
  have idle3: "state (reset ?r2) = Idle" by (simp add: reset_fields)
  have s3: "remainingSeconds ?s3 = 400" "triggeredWarnings ?s3 = {}"
    "warnings (emitted ?s3) = warnings (emitted s) @ [300, 60]"
    by (simp_all add: start_idle_fields [OF idle3] reset_fields r2 w2)
  have l3: "int (length ts3) \<le> remainingSeconds ?s3"
    using assms(5) by (simp add: s3)
  have r3: "remainingSeconds ?r3 = 60"
    using ticks_countdown [OF l3] assms(5) by (simp add: s3)
  have w3: "warnings (emitted ?r3) = warnings (emitted s) @ [300, 60, 300, 60]"
    using ticks_warnings [OF l3] assms(5) by (simp add: s3)
  from session_warning_count [OF assms(1)] r1(1) w1(1) r2(1) w2 s3(2) s3(1) r3 w3
  show ?thesis unfolding Let_def by blast
qed

theorem warnings_once_per_session_witness:
  "sessionRun [Tick 0, Pause, Start 1, Tick 2] (start 0 (setTime 301 init)) \<and>
   state init = Idle \<and>
   length (replicate 100 (0::date)) = 100 \<and> length (replicate 240 (0::date)) = 240 \<and>
   length (replicate 340 (0::date)) = 340 \<and>
   count_list (warnings (emitted
      (fold exec [Tick 0, Pause, Start 1, Tick 2] (start 0 (setTime 301 init))))) 300
     \<le> count_list (warnings (emitted (start 0 (setTime 301 init)))) 300 + 1 \<and>
   warnings (emitted (fold tick (replicate 340 0) (start 0 (reset
      (fold tick (replicate 240 0) (fold tick (replicate 100 0)
         (start 0 (setTime 400 init)))))))) = [300, 60, 300, 60]"
proof -
  have a: "sessionRun [Tick 0, Pause, Start 1, Tick 2] (start 0 (setTime 301 init))"
    by (simp add: init_def setTime_def start_def pause_def tick_def Let_def
          WARNING_THRESHOLDS_def checkWarning_def emit_def)
  have b: "state init = Idle" and e: "warnings (emitted init) = []"
    by (simp_all add: init_def)
  have c: "length (replicate 100 (0::date)) = 100" "length (replicate 240 (0::date)) = 240"
    "length (replicate 340 (0::date)) = 340"
    by (simp_all only: length_replicate)
  note th = warnings_once_per_session [OF a b c, of 300 0 0, unfolded Let_def e append_Nil]
  from th a b c show ?thesis by blast
qed

subsection \<open>Order of the events\<close>

text \<open>
  C9. The events of one tick are, in this order: on natural completion
  (\<open>remainingSeconds \<le> 0\<close>) the completion event and then the state-change event;
  otherwise the warning events for the thresholds just reached, and after them the
  tick event.
\<close>

theorem tick_event_order:
  "emitted (tick now s) = emitted s @
     (if remainingSeconds s \<le> 0
      then [CompleteEv \<lparr> duration = totalSeconds s, startTime = sessionStartTime s,
                          endTime = now, completed = True, wasBreak = isBreak s \<rparr>,
            StateChangeEv Idle None]
      else map WarningEv
             (filter (\<lambda>t. remainingSeconds s - 1 = t \<and> t \<notin> triggeredWarnings s)
                WARNING_THRESHOLDS) @
           [TickEv (formatTime (remainingSeconds s - 1)) (remainingSeconds s - 1)])"
  by (simp add: tick_def complete_fields Let_def WARNING_THRESHOLDS_def checkWarning_def)

subsection \<open>Setting the time\<close>

text \<open>
  C10. For every integer \<open>n\<close>, \<open>setTime(n)\<close> while the timer is not Running leaves
  \<open>60 \<le> totalSeconds \<le> 43200\<close> and \<open>remainingSeconds = totalSeconds\<close>; \<open>setTime(10)\<close>
  gives \<open>totalSeconds = 60\<close> and \<open>setTime(999999)\<close> gives \<open>totalSeconds = 43200\<close>.
\<close>

theorem setTime_clamps:
  assumes "state s \<noteq> Running"
  shows "60 \<le> totalSeconds (setTime n s) \<and> totalSeconds (setTime n s) \<le> 43200 \<and>
         remainingSeconds (setTime n s) = totalSeconds (setTime n s) \<and>
         totalSeconds (setTime 10 s) = 60 \<and> totalSeconds (setTime 999999 s) = 43200"
  using assms by (simp add: setTime_def Let_def)

theorem setTime_clamps_witness:
  "state init \<noteq> Running \<and>
   60 \<le> totalSeconds (setTime 5000 init) \<and> totalSeconds (setTime 5000 init) \<le> 43200 \<and>
   remainingSeconds (setTime 5000 init) = totalSeconds (setTime 5000 init) \<and>
   totalSeconds (setTime 10 init) = 60 \<and> totalSeconds (setTime 999999 init) = 43200"
proof -
  have a: "state init \<noteq> Running" by (simp add: init_def)
  from setTime_clamps [OF a, of 5000] a show ?thesis by blast
qed

section \<open>Properties of the session history\<close>

lemma foldl_duration:
  "foldl (\<lambda>sum s. sum + sess_duration s) a xs = a + sum_list (map sess_duration xs)"
  by (induction xs arbitrary: a) simp_all

lemma set_addDate [simp]: "set (addDate d ds) = insert d (set ds)"
  by (auto simp add: addDate_def)

lemma set_fold_addDate:
  "set (fold (\<lambda>s ds. addDate (f s) ds) xs acc) = f ` set xs \<union> set acc"
  by (induction xs arbitrary: acc) auto

lemma streakLoop_walk:
  "\<exists>m. streakLoop dates c k = k + m \<and>
       (\<forall>j<m. isoDate c - int j \<in> set dates) \<and>
       isoDate c - int m \<notin> set dates"
proof (induction dates c k rule: streakLoop.induct)
  case (1 dates c k)
  show ?case
  proof (cases "isoDate c \<in> set dates")
    case False
    then have "streakLoop dates c k = k + 0 \<and>
       (\<forall>j<0::nat. isoDate c - int j \<in> set dates) \<and> isoDate c - int 0 \<notin> set dates"
      by (simp add: streakLoop.simps [of dates c k])
    then show ?thesis by blast
  next
    case True
    have prev: "isoDate (c - 86400000) = isoDate c - 1"
      by (simp add: isoDate_def)
    from "1.IH" [OF True] obtain m where
      m: "streakLoop dates (c - 86400000) (k + 1) = k + 1 + m"
         "\<forall>j<m. isoDate c - 1 - int j \<in> set dates"
         "isoDate c - 1 - int m \<notin> set dates"
      unfolding prev by blast
    have a: "streakLoop dates c k = k + Suc m"
      using True m(1) by (simp add: streakLoop.simps [of dates c k])
    have b: "\<forall>j<Suc m. isoDate c - int j \<in> set dates"
    proof (intro allI impI)
      fix j assume "j < Suc m"
      show "isoDate c - int j \<in> set dates"
      proof (cases j)
        case 0
        then show ?thesis using True by simp
      next
        case (Suc i)
        then have "i < m" using \<open>j < Suc m\<close> by simp
        then have mem: "isoDate c - 1 - int i \<in> set dates" using m(2) by blast
        have e: "isoDate c - int j = isoDate c - 1 - int i" using Suc by simp
        show ?thesis unfolding e by (rule mem)
      qed
    qed
    have c: "isoDate c - int (Suc m) \<notin> set dates"
    proof -
      have e: "isoDate c - int (Suc m) = isoDate c - 1 - int m" by simp
      show ?thesis unfolding e by (rule m(3))
    qed
    from a b c show ?thesis by blast
  qed
qed

lemma getStreak_walk:
  "(\<forall>k<getStreak now st.
       (if isoDate now \<in> completedDays st then isoDate now else isoDate now - 1) - int k
         \<in> completedDays st) \<and>
   (if isoDate now \<in> completedDays st then isoDate now else isoDate now - 1)
      - int (getStreak now st) \<notin> completedDays st"
proof -
  let ?sessions = "filter (\<lambda>s. sess_completed s \<and> \<not> sess_wasBreak s) (getSessions st)"
  let ?dates = "fold (\<lambda>s ds. addDate (isoDate (sess_startTime s)) ds) ?sessions []"
  let ?D = "completedDays st"
  let ?first = "if isoDate now \<in> ?D then isoDate now else isoDate now - 1"
  have dates: "set ?dates = ?D"
    by (simp add: set_fold_addDate completedDays_def)
  have prev: "isoDate (now - 86400000) = isoDate now - 1"
    by (simp add: isoDate_def)
  show ?thesis
  proof (cases "?first \<in> ?D")
    case False
    then have "isoDate now \<notin> ?D" "isoDate now - 1 \<notin> ?D"
      by (auto split: if_splits)
    then have "getStreak now st = 0"
      unfolding getStreak_def Let_def getTodayString_def prev dates by simp
    with False show ?thesis by simp
  next
    case True
    have ne: "?sessions \<noteq> []"
    proof
      assume "?sessions = []"
      then have "?D = {}"
        unfolding completedDays_def by (simp only: list.map list.set)
      with True show False by simp
    qed
    let ?c = "if isoDate now \<notin> ?D then now - 86400000 else now"
    have c: "isoDate ?c = ?first"
      by (simp add: prev)
    have nb: "\<not> (isoDate now \<notin> ?D \<and> isoDate now - 1 \<notin> ?D)"
      using True by (auto split: if_splits)
    have eq: "getStreak now st = streakLoop ?dates ?c 0"
      unfolding getStreak_def Let_def getTodayString_def prev dates
      by (simp only: length_0_conv ne nb if_False)
    from streakLoop_walk [of ?dates ?c 0] obtain m where
      m: "streakLoop ?dates ?c 0 = 0 + m" "\<forall>j<m. isoDate ?c - int j \<in> set ?dates"
         "isoDate ?c - int m \<notin> set ?dates"
      by blast
    then show ?thesis
      unfolding eq c dates by simp
  qed
qed


section \<open>The claims about the session history\<close>

text \<open>
  C5 (as the code has it). \<open>getStats()\<close> reports as today's total the sum of the
  durations of exactly those stored sessions whose start date equals today's date,
  both taken as the UTC date that \<open>toISOString()\<close> gives, whose \<open>wasBreak\<close> flag is
  false and whose \<open>completed\<close> flag is true.
\<close>

theorem todayTotal_counts_completed:
  "todayTotal (getStats now st) =
     sum_list (map sess_duration
       (filter (\<lambda>x. isoDate (sess_startTime x) = getTodayString now \<and>
                     \<not> sess_wasBreak x \<and> sess_completed x)
          (getSessions st)))"
  by (simp add: getStats_def getTodayTotal_def getTodaySessions_def foldl_duration Let_def
        conj_commute conj_left_commute)

text \<open>
  The claim C5 as written fails twice. On a clock set to UTC, a stored session that
  started today, is no break and was aborted (\<open>completed = false\<close>) with a duration
  of 100 seconds is left out of today's total, which is 0 where the claim's sum is 100.
  And on a clock set to UTC-8, a completed session of 3600 seconds that started at
  15:00 local time is left out of the total asked for at 17:00 local time of the same
  local day, because the two instants (23:00 and 01:00 UTC) lie on different UTC days:
  the total is 0 where the claim's sum is 3600.
\<close>

theorem todayTotal_skips_aborted:
  "todayTotal (getStats 0 (Some [\<lparr> sess_id = 1, sess_startTime = 0, sess_endTime = 100000,
      sess_duration = 100, sess_completed = False, sess_wasBreak = False \<rparr>])) = 0 \<and>
   claimedTodayTotal 0 0 (Some [\<lparr> sess_id = 1, sess_startTime = 0, sess_endTime = 100000,
      sess_duration = 100, sess_completed = False, sess_wasBreak = False \<rparr>]) = 100 \<and>
   todayTotal (getStats 90000000 (Some [\<lparr> sess_id = 1, sess_startTime = 82800000,
      sess_endTime = 86400000, sess_duration = 3600, sess_completed = True,
      sess_wasBreak = False \<rparr>])) = 0 \<and>
   claimedTodayTotal 480 90000000 (Some [\<lparr> sess_id = 1, sess_startTime = 82800000,
      sess_endTime = 86400000, sess_duration = 3600, sess_completed = True,
      sess_wasBreak = False \<rparr>]) = 3600"
  by (simp add: getStats_def getTodayTotal_def getTodaySessions_def getSessions_def
        getTodayString_def isoDate_def claimedTodayTotal_def localDate_def Let_def)

text \<open>
  C6. The streak that \<open>getStats()\<close> reports is what \<open>getStreak()\<close> returns. With
  \<open>first\<close> the day the walk starts at (today, or yesterday when no completed session
  that is not a break started today), the streak \<open>n\<close> is the number of consecutive
  days, walking backward from \<open>first\<close>, that each have such a session: the days
  \<open>first, first - 1, ..., first - (n - 1)\<close> all have one and the day \<open>first - n\<close> has
  none. When neither today nor yesterday has one (a gap of two days or more) the
  streak is 0.
\<close>

theorem streak_consecutive_days:
  "let D = completedDays st;
       today = getTodayString now;
       first = (if today \<in> D then today else today - 1);
       n = streak (getStats now st)
   in n = getStreak now st \<and>
      (\<forall>k<n. first - int k \<in> D) \<and>
      first - int n \<notin> D \<and>
      (today \<notin> D \<and> today - 1 \<notin> D \<longrightarrow> n = 0)"
proof -
  let ?D = "completedDays st"
  let ?first = "if isoDate now \<in> ?D then isoDate now else isoDate now - 1"
  have s: "streak (getStats now st) = getStreak now st"
    by (simp add: getStats_def Let_def)
  note walk = getStreak_walk [of now st]
  have "isoDate now \<notin> ?D \<and> isoDate now - 1 \<notin> ?D \<longrightarrow> getStreak now st = 0"
  proof
    assume a: "isoDate now \<notin> ?D \<and> isoDate now - 1 \<notin> ?D"
    show "getStreak now st = 0"
    proof (rule ccontr)
      assume "getStreak now st \<noteq> 0"
      then have "0 < getStreak now st" by simp
      with walk have "?first - int 0 \<in> ?D" by blast
      with a show False by simp
    qed
  qed
  with walk show ?thesis
    unfolding Let_def getTodayString_def s by blast
qed

theorem streak_consecutive_days_witness:
  "streak (getStats 867600000 (Some
      [\<lparr> sess_id = 4, sess_startTime = 864000000, sess_endTime = 864100000,
         sess_duration = 100, sess_completed = True, sess_wasBreak = False \<rparr>,
       \<lparr> sess_id = 3, sess_startTime = 777600000, sess_endTime = 777700000,
         sess_duration = 100, sess_completed = True, sess_wasBreak = False \<rparr>,
       \<lparr> sess_id = 2, sess_startTime = 691200000, sess_endTime = 691300000,
         sess_duration = 100, sess_completed = False, sess_wasBreak = False \<rparr>,
       \<lparr> sess_id = 1, sess_startTime = 604800000, sess_endTime = 604900000,
         sess_duration = 100, sess_completed = True, sess_wasBreak = False \<rparr>])) = 2 \<and>
   getTodayString 867600000 - int 1 \<in> completedDays (Some
      [\<lparr> sess_id = 4, sess_startTime = 864000000, sess_endTime = 864100000,
         sess_duration = 100, sess_completed = True, sess_wasBreak = False \<rparr>,
       \<lparr> sess_id = 3, sess_startTime = 777600000, sess_endTime = 777700000,
         sess_duration = 100, sess_completed = True, sess_wasBreak = False \<rparr>,
       \<lparr> sess_id = 2, sess_startTime = 691200000, sess_endTime = 691300000,
         sess_duration = 100, sess_completed = False, sess_wasBreak = False \<rparr>,
       \<lparr> sess_id = 1, sess_startTime = 604800000, sess_endTime = 604900000,
         sess_duration = 100, sess_completed = True, sess_wasBreak = False \<rparr>]) \<and>
   getTodayString 867600000 - int 2 \<notin> completedDays (Some
      [\<lparr> sess_id = 4, sess_startTime = 864000000, sess_endTime = 864100000,
         sess_duration = 100, sess_completed = True, sess_wasBreak = False \<rparr>,
       \<lparr> sess_id = 3, sess_startTime = 777600000, sess_endTime = 777700000,
         sess_duration = 100, sess_completed = True, sess_wasBreak = False \<rparr>,
       \<lparr> sess_id = 2, sess_startTime = 691200000, sess_endTime = 691300000,
         sess_duration = 100, sess_completed = False, sess_wasBreak = False \<rparr>,
       \<lparr> sess_id = 1, sess_startTime = 604800000, sess_endTime = 604900000,
         sess_duration = 100, sess_completed = True, sess_wasBreak = False \<rparr>]) \<and>
   getTodayString 867600000 \<notin> completedDays (Some
      [\<lparr> sess_id = 1, sess_startTime = 604800000, sess_endTime = 604900000,
         sess_duration = 100, sess_completed = True, sess_wasBreak = False \<rparr>]) \<and>
   getTodayString 867600000 - 1 \<notin> completedDays (Some
      [\<lparr> sess_id = 1, sess_startTime = 604800000, sess_endTime = 604900000,
         sess_duration = 100, sess_completed = True, sess_wasBreak = False \<rparr>]) \<and>
   streak (getStats 867600000 (Some
      [\<lparr> sess_id = 1, sess_startTime = 604800000, sess_endTime = 604900000,
         sess_duration = 100, sess_completed = True, sess_wasBreak = False \<rparr>])) = 0"
  using streak_consecutive_days [of "Some
      [\<lparr> sess_id = 4, sess_startTime = 864000000, sess_endTime = 864100000,
         sess_duration = 100, sess_completed = True, sess_wasBreak = False \<rparr>,
       \<lparr> sess_id = 3, sess_startTime = 777600000, sess_endTime = 777700000,
         sess_duration = 100, sess_completed = True, sess_wasBreak = False \<rparr>,
       \<lparr> sess_id = 2, sess_startTime = 691200000, sess_endTime = 691300000,
         sess_duration = 100, sess_completed = False, sess_wasBreak = False \<rparr>,
       \<lparr> sess_id = 1, sess_startTime = 604800000, sess_endTime = 604900000,
         sess_duration = 100, sess_completed = True, sess_wasBreak = False \<rparr>]" 867600000]
    streak_consecutive_days [of "Some
      [\<lparr> sess_id = 1, sess_startTime = 604800000, sess_endTime = 604900000,
         sess_duration = 100, sess_completed = True, sess_wasBreak = False \<rparr>]" 867600000]
  by (simp add: getStats_def getStreak_def getSessions_def getTodayString_def isoDate_def
        addDate_def streakLoop.simps completedDays_def Let_def)

end
